theory Spec2Isabelle
  imports Main "HOL-Library.Sublist"
begin

section \<open>Comment tree\<close>

subsection \<open>Data model\<close>

text \<open>
  The \<^verbatim>\<open>Comment\<close> model of the backend: an adjacency list with a self-referential,
  nullable foreign key \<^verbatim>\<open>parent\<close>. Identifiers are non-negative database keys,
  \<^verbatim>\<open>created_at\<close> is a point in time, an integer number of clock ticks.
\<close>

record comment =
  comment_id :: nat
  comment_post :: nat
  comment_author :: nat
  parent_id :: "nat option"
  comment_content :: string
  comment_created_at :: int

text \<open>A Python dict from parent id (or \<^verbatim>\<open>None\<close>) to the list of comments under it.\<close>

type_synonym comment_dict = "nat option \<rightharpoonup> comment list"

subsection \<open>\<^verbatim>\<open>build_comment_tree\<close>\<close>

text \<open>
  \<^verbatim>\<open>
  def build_comment_tree(comments):
      tree = {}
      for comment in comments:
          parent_id = comment.parent_id
          if parent_id not in tree:
              tree[parent_id] = []
          tree[parent_id].append(comment)
      return tree
  \<close>
  One iteration of the loop body is \<open>tree_insert\<close>: a missing key is first bound to the
  empty list, then the comment is appended to the list under the key.
\<close>

definition tree_insert :: "comment_dict \<Rightarrow> comment \<Rightarrow> comment_dict" where
  "tree_insert tree c =
     (let pid = parent_id c;
          tree1 = (if tree pid = None then tree(pid \<mapsto> []) else tree)
      in case tree1 pid of
           None \<Rightarrow> tree1
         | Some l \<Rightarrow> tree1(pid \<mapsto> l @ [c]))"

fun build_comment_tree_loop :: "comment_dict \<Rightarrow> comment list \<Rightarrow> comment_dict" where
  "build_comment_tree_loop tree [] = tree"
| "build_comment_tree_loop tree (c # cs) = build_comment_tree_loop (tree_insert tree c) cs"

definition build_comment_tree :: "comment list \<Rightarrow> comment_dict" where
  "build_comment_tree comments = build_comment_tree_loop Map.empty comments"

subsection \<open>Materialising the forest\<close>

datatype comment_node = CommentNode (node_record: comment) (node_children: "comment_node list")

text \<open>
  Modelled from the spec: looking a parent id up in the grouping. The lookup is not among
  the sources; an id that is no key of the dict has no children.
\<close>

definition bucket :: "comment_dict \<Rightarrow> nat option \<Rightarrow> comment list" where
  "bucket tree k = (case tree k of None \<Rightarrow> [] | Some l \<Rightarrow> l)"

text \<open>
  Modelled from the spec: the pass that turns the grouping into nested nodes (the
  serializer that consumes the dict of \<^verbatim>\<open>build_comment_tree\<close>) is not among the
  sources. The specification describes it as a recursive materialisation starting from
  the null-parent bucket, which attaches each node's children by looking up the node's
  own id in the grouping.

  The recursion of that pass has no guard of its own, so the model carries fuel: the
  first argument bounds the nesting depth, and \<open>None\<close> stands for a recursion that does
  not come back within it.
\<close>

fun materialize :: "nat \<Rightarrow> comment_dict \<Rightarrow> comment \<Rightarrow> comment_node option" where
  "materialize 0 tree c = None"
| "materialize (Suc n) tree c =
     map_option (CommentNode c)
       (those (map (materialize n tree) (bucket tree (Some (comment_id c)))))"

text \<open>
  Modelled from the spec: \<^verbatim>\<open>buildTree(comments)\<close> is the grouping pass followed by
  the materialisation of the null-parent bucket. A path of the forest longer than the
  input repeats a comment, and from a repeated comment the recursion never returns; so
  fuel \<open>length comments\<close> is exhausted only by a run that does not terminate.
\<close>

definition buildTree :: "comment list \<Rightarrow> comment_node list option" where
  "buildTree comments =
     (let tree = build_comment_tree comments
      in those (map (materialize (length comments) tree) (bucket tree None)))"

text \<open>All comment records of a node and of a forest, in pre-order.\<close>

fun flatten_node :: "comment_node \<Rightarrow> comment list" where
  "flatten_node (CommentNode c ns) = c # concat (map flatten_node ns)"

definition flatten_forest :: "comment_node list \<Rightarrow> comment list" where
  "flatten_forest ns = concat (map flatten_node ns)"

text \<open>
  The shape the specification asks of every node: the records of its children are the
  input restricted to the comments whose parent is the node, in input order, and they are
  ordered by creation time.
\<close>

fun children_match :: "comment list \<Rightarrow> comment_node \<Rightarrow> bool" where
  "children_match cs (CommentNode c ns) \<longleftrightarrow>
     map node_record ns = filter (\<lambda>d. parent_id d = Some (comment_id c)) cs \<and>
     sorted (map (\<lambda>n. comment_created_at (node_record n)) ns) \<and>
     list_all (children_match cs) ns"

text \<open>
  \<open>depth_in cs c k\<close>: following parent references from \<open>c\<close> inside \<open>cs\<close> reaches a
  root-level comment after \<open>k\<close> steps. It measures the recursion of \<open>materialize\<close>.
\<close>

inductive depth_in :: "comment list \<Rightarrow> comment \<Rightarrow> nat \<Rightarrow> bool" for cs where
  depth_root: "c \<in> set cs \<Longrightarrow> parent_id c = None \<Longrightarrow> depth_in cs c 0"
| depth_child: "c \<in> set cs \<Longrightarrow> parent_id c = Some (comment_id d) \<Longrightarrow> depth_in cs d k
     \<Longrightarrow> depth_in cs c (Suc k)"

subsection \<open>Concrete inputs\<close>

text \<open>The four comments of scenario A: 2 and 3 reply to 1, and 4 replies to 2.\<close>

definition scenario_A_comment :: "nat \<Rightarrow> nat option \<Rightarrow> int \<Rightarrow> comment" where
  "scenario_A_comment i p t =
     \<lparr>comment_id = i, comment_post = 1, comment_author = 1, parent_id = p,
      comment_content = ''text'', comment_created_at = t\<rparr>"

definition scenario_A :: "comment list" where
  "scenario_A =
     [scenario_A_comment 1 None 1, scenario_A_comment 2 (Some 1) 2,
      scenario_A_comment 3 (Some 1) 3, scenario_A_comment 4 (Some 2) 4]"

text \<open>Scenario B: comment 5 replies to comment 99, which does not exist.\<close>

definition scenario_B_comment :: comment where
  "scenario_B_comment =
     \<lparr>comment_id = 5, comment_post = 1, comment_author = 1, parent_id = Some 99,
      comment_content = ''text'', comment_created_at = 5\<rparr>"

section \<open>Karma leaderboard\<close>

subsection \<open>Tables\<close>

text \<open>
  The rows the views read. \<^verbatim>\<open>PostLike\<close> and \<^verbatim>\<open>CommentLike\<close> carry the liking user, the
  liked post or comment and the time of the like; the author who earns the karma is
  reached through the foreign key (\<^verbatim>\<open>post__author\<close>, \<^verbatim>\<open>comment__author\<close>). Times are
  integer clock ticks of one microsecond, the resolution of a Python \<^verbatim>\<open>datetime\<close>.
\<close>

record post =
  post_id :: nat
  post_author :: nat
  post_content :: string

record post_like =
  like_id :: nat
  like_user :: nat
  like_post :: nat
  like_created_at :: int

record comment_like =
  clike_id :: nat
  clike_user :: nat
  clike_comment :: nat
  clike_created_at :: int

text \<open>
  Everything a view reads besides its arguments: the tables and the wall clock that
  \<^verbatim>\<open>timezone.now()\<close> returns.
\<close>

record database =
  clock :: int
  post_table :: "post list"
  comment_table :: "comment list"
  post_like_table :: "post_like list"
  comment_like_table :: "comment_like list"

record request =
  request_user :: nat

definition timedelta_hours :: "int \<Rightarrow> int" where
  "timedelta_hours h = h * 3600000000"

subsection \<open>The two aggregate queries\<close>

text \<open>The joins \<^verbatim>\<open>post__author\<close> and \<^verbatim>\<open>comment__author\<close>: the author of the row's target.\<close>

definition lookup_post_author :: "post list \<Rightarrow> nat \<Rightarrow> nat option" where
  "lookup_post_author ps pid = map_option post_author (find (\<lambda>p. post_id p = pid) ps)"

definition lookup_comment_author :: "comment list \<Rightarrow> nat \<Rightarrow> nat option" where
  "lookup_comment_author cs cid = map_option comment_author (find (\<lambda>c. comment_id c = cid) cs)"

text \<open>
  \<^verbatim>\<open>.values(key).annotate(karma=Count('id') * w).values(key, 'karma')\<close>: one entry per
  distinct key, with the number of rows of the group times the weight. SQL leaves the
  order of the groups open; the model lists them by ascending key, as SQLite (the
  project's database) emits them.
\<close>

definition values_annotate_count :: "nat list \<Rightarrow> int \<Rightarrow> (nat \<times> int) list" where
  "values_annotate_count keys w =
     map (\<lambda>k. (k, int (count_list keys k) * w)) (sort (remdups keys))"

text \<open>
  \<^verbatim>\<open>
  post_karma = PostLike.objects.filter(
      created_at__gte=last_24h
  ).values('post__author').annotate(
      karma=Count('id') * 5
  ).values('post__author', 'karma')
  \<close>
\<close>

definition post_karma :: "database \<Rightarrow> int \<Rightarrow> (nat \<times> int) list" where
  "post_karma db last_24h =
     values_annotate_count
       (List.map_filter (\<lambda>l. lookup_post_author (post_table db) (like_post l))
          (filter (\<lambda>l. last_24h \<le> like_created_at l) (post_like_table db)))
       5"

text \<open>
  \<^verbatim>\<open>
  comment_karma = CommentLike.objects.filter(
      created_at__gte=last_24h
  ).values('comment__author').annotate(
      karma=Count('id')
  ).values('comment__author', 'karma')
  \<close>
\<close>

definition comment_karma :: "database \<Rightarrow> int \<Rightarrow> (nat \<times> int) list" where
  "comment_karma db last_24h =
     values_annotate_count
       (List.map_filter (\<lambda>l. lookup_comment_author (comment_table db) (clike_comment l))
          (filter (\<lambda>l. last_24h \<le> clike_created_at l) (comment_like_table db)))
       1"

subsection \<open>Combining and ranking\<close>

text \<open>
  A Python dict keeps its keys in insertion order, and \<^verbatim>\<open>items()\<close> lists them in that
  order; so \<^verbatim>\<open>user_karma\<close> is an association list. \<open>dict_get\<close> is \<^verbatim>\<open>d.get(k, default)\<close>,
  \<open>dict_set\<close> is \<^verbatim>\<open>d[k] = v\<close>: an existing key keeps its place, a new key goes last.
\<close>

fun dict_get :: "('k \<times> 'v) list \<Rightarrow> 'k \<Rightarrow> 'v \<Rightarrow> 'v" where
  "dict_get [] k d = d"
| "dict_get ((k', v) # kvs) k d = (if k' = k then v else dict_get kvs k d)"

fun dict_set :: "('k \<times> 'v) list \<Rightarrow> 'k \<Rightarrow> 'v \<Rightarrow> ('k \<times> 'v) list" where
  "dict_set [] k v = [(k, v)]"
| "dict_set ((k', v') # kvs) k v =
     (if k' = k then (k, v) # kvs else (k', v') # dict_set kvs k v)"

text \<open>
  \<^verbatim>\<open>
  for entry in post_karma:
      user_id = entry['post__author']
      user_karma[user_id] = user_karma.get(user_id, 0) + entry['karma']
  \<close>
  and the same loop over \<^verbatim>\<open>comment_karma\<close>.
\<close>

fun accumulate :: "(nat \<times> int) list \<Rightarrow> (nat \<times> int) list \<Rightarrow> (nat \<times> int) list" where
  "accumulate user_karma [] = user_karma"
| "accumulate user_karma ((user_id, karma) # entries) =
     accumulate (dict_set user_karma user_id (dict_get user_karma user_id 0 + karma)) entries"

definition user_karma :: "database \<Rightarrow> (nat \<times> int) list" where
  "user_karma db =
     (let now = clock db;
          last_24h = now - timedelta_hours 24
      in accumulate (accumulate [] (post_karma db last_24h)) (comment_karma db last_24h))"

text \<open>
  \<^verbatim>\<open>sorted(user_karma.items(), key=lambda x: x[1], reverse=True)[:5]\<close>. Python's sort is
  stable, also with \<^verbatim>\<open>reverse=True\<close>: entries with equal karma keep the order of
  \<^verbatim>\<open>items()\<close>. That is the stable sort by negated karma.
\<close>

definition leaderboard :: "request \<Rightarrow> database \<Rightarrow> (nat \<times> int) list" where
  "leaderboard request db = take 5 (sort_key (\<lambda>x. - snd x) (user_karma db))"

text \<open>
  The events the specification calls qualifying: those inside the window that ends at
  the clock reading and is 24 hours long, boundary included.
\<close>

definition qualifying_post_likes :: "database \<Rightarrow> post_like list" where
  "qualifying_post_likes db =
     filter (\<lambda>l. clock db - timedelta_hours 24 \<le> like_created_at l) (post_like_table db)"

definition qualifying_comment_likes :: "database \<Rightarrow> comment_like list" where
  "qualifying_comment_likes db =
     filter (\<lambda>l. clock db - timedelta_hours 24 \<le> clike_created_at l) (comment_like_table db)"


text \<open>
  \<open>extended_by old xs ys\<close>: the list \<open>ys\<close> is \<open>xs\<close> with further elements put in anywhere,
  each of which satisfies \<open>old\<close>.
\<close>

inductive extended_by :: "('a \<Rightarrow> bool) \<Rightarrow> 'a list \<Rightarrow> 'a list \<Rightarrow> bool" for old where
  extended_Nil: "extended_by old [] []"
| extended_keep: "extended_by old xs ys \<Longrightarrow> extended_by old (x # xs) (x # ys)"
| extended_add: "old y \<Longrightarrow> extended_by old xs ys \<Longrightarrow> extended_by old xs (y # ys)"

subsection \<open>Concrete databases\<close>

text \<open>
  Scenario C. User 1 wrote post 1, user 2 wrote comment 1. The clock reads hour 100.
  Post 1 was liked one hour ago and thirty hours ago, comment 1 two hours ago.
\<close>

definition scenario_C :: database where
  "scenario_C =
     \<lparr>clock = timedelta_hours 100,
      post_table = [\<lparr>post_id = 1, post_author = 1, post_content = ''post''\<rparr>],
      comment_table =
        [\<lparr>comment_id = 1, comment_post = 1, comment_author = 2, parent_id = None,
          comment_content = ''text'', comment_created_at = timedelta_hours 50\<rparr>],
      post_like_table =
        [\<lparr>like_id = 1, like_user = 3, like_post = 1, like_created_at = timedelta_hours 99\<rparr>,
         \<lparr>like_id = 2, like_user = 4, like_post = 1, like_created_at = timedelta_hours 70\<rparr>],
      comment_like_table =
        [\<lparr>clike_id = 1, clike_user = 3, clike_comment = 1,
          clike_created_at = timedelta_hours 98\<rparr>]\<rparr>"

text \<open>The same database as the persistence layer would hand it over after filtering.\<close>

definition scenario_C_prefiltered :: database where
  "scenario_C_prefiltered =
     scenario_C\<lparr>post_like_table :=
        [\<lparr>like_id = 1, like_user = 3, like_post = 1, like_created_at = timedelta_hours 99\<rparr>]\<rparr>"

text \<open>
  The events of scenario C seen through other rows: other likers, row ids and post text,
  the same authors and times.
\<close>

definition scenario_C_other_rows :: database where
  "scenario_C_other_rows =
     scenario_C\<lparr>post_table := [\<lparr>post_id = 1, post_author = 1, post_content = ''edited''\<rparr>],
       post_like_table :=
        [\<lparr>like_id = 7, like_user = 5, like_post = 1, like_created_at = timedelta_hours 99\<rparr>,
         \<lparr>like_id = 8, like_user = 6, like_post = 1, like_created_at = timedelta_hours 70\<rparr>]\<rparr>"

text \<open>
  Scenario D. User 2 wrote post 1, user 1 wrote comment 1. Within the window post 1 gets
  one like and comment 1 gets five: both authors land on 5 karma.
\<close>

definition scenario_D :: database where
  "scenario_D =
     \<lparr>clock = timedelta_hours 100,
      post_table = [\<lparr>post_id = 1, post_author = 2, post_content = ''post''\<rparr>],
      comment_table =
        [\<lparr>comment_id = 1, comment_post = 1, comment_author = 1, parent_id = None,
          comment_content = ''text'', comment_created_at = timedelta_hours 50\<rparr>],
      post_like_table =
        [\<lparr>like_id = 1, like_user = 3, like_post = 1, like_created_at = timedelta_hours 99\<rparr>],
      comment_like_table =
        map (\<lambda>u. \<lparr>clike_id = u, clike_user = u, clike_comment = 1,
                 clike_created_at = timedelta_hours 98\<rparr>) [3, 4, 5, 6, 7]\<rparr>"


text \<open>
  One post of user 1, liked exactly 24 hours before the clock reading and once more a
  microsecond earlier.
\<close>

definition boundary_db :: database where
  "boundary_db =
     \<lparr>clock = timedelta_hours 100,
      post_table = [\<lparr>post_id = 1, post_author = 1, post_content = ''post''\<rparr>],
      comment_table = [],
      post_like_table =
        [\<lparr>like_id = 1, like_user = 3, like_post = 1, like_created_at = timedelta_hours 76\<rparr>,
         \<lparr>like_id = 2, like_user = 4, like_post = 1, like_created_at = timedelta_hours 76 - 1\<rparr>],
      comment_like_table = []\<rparr>"

text \<open>
  The event streams in the specification's sense: for each like the author it credits
  and its time, nothing else of the row.
\<close>

definition post_events :: "database \<Rightarrow> (nat option \<times> int) list" where
  "post_events db =
     map (\<lambda>l. (lookup_post_author (post_table db) (like_post l), like_created_at l))
       (post_like_table db)"

definition comment_events :: "database \<Rightarrow> (nat option \<times> int) list" where
  "comment_events db =
     map (\<lambda>l. (lookup_comment_author (comment_table db) (clike_comment l), clike_created_at l))
       (comment_like_table db)"

section \<open>Liking a post\<close>

text \<open>
  \<^verbatim>\<open>
  def like(self, request, pk=None):
      post = self.get_object()
      try:
          with transaction.atomic():
              _, created = PostLike.objects.get_or_create(user=user, post=post)
              if not created:
                  return Response(
                      {'detail': 'Already liked this post'},
                      status=status.HTTP_400_BAD_REQUEST
                  )
          return Response({'detail': 'Post liked successfully'})
      except IntegrityError:
          return Response(
              {'detail': 'Already liked this post'},
              status=status.HTTP_400_BAD_REQUEST
          )
  \<close>
  The user is the one of the request. The model is sequential: one call runs from its
  first read to its last write with no other call in between.
\<close>

datatype response = Response (response_status: nat) (response_detail: string) | Http404

datatype db_error = IntegrityError

text \<open>\<^verbatim>\<open>get_object()\<close>: the post with primary key \<open>pk\<close>, or the 404 outcome.\<close>

definition get_object :: "database \<Rightarrow> nat \<Rightarrow> post option" where
  "get_object db pk = find (\<lambda>p. post_id p = pk) (post_table db)"

text \<open>The Liked state of a (user, post) pair: a \<^verbatim>\<open>PostLike\<close> row for it is stored.\<close>

definition liked :: "database \<Rightarrow> nat \<Rightarrow> nat \<Rightarrow> bool" where
  "liked db u p \<longleftrightarrow> list_ex (\<lambda>l. like_user l = u \<and> like_post l = p) (post_like_table db)"

text \<open>
  The insert of a \<^verbatim>\<open>PostLike\<close> row. The constraint \<^verbatim>\<open>unique_post_like\<close> on
  \<^verbatim>\<open>(user, post)\<close> is checked by the database at the write; \<^verbatim>\<open>created_at\<close> is set from
  the clock, the id is the next free one.
\<close>

definition create_post_like :: "database \<Rightarrow> nat \<Rightarrow> nat \<Rightarrow> db_error + post_like \<times> database" where
  "create_post_like db u p =
     (if liked db u p then Inl IntegrityError
      else let row = \<lparr>like_id = Suc (fold max (map like_id (post_like_table db)) 0),
                       like_user = u, like_post = p, like_created_at = clock db\<rparr>
           in Inr (row, db\<lparr>post_like_table := post_like_table db @ [row]\<rparr>))"

text \<open>\<^verbatim>\<open>get_or_create\<close>: the stored row and \<open>False\<close>, or a new row and \<open>True\<close>.\<close>

definition get_or_create ::
    "database \<Rightarrow> nat \<Rightarrow> nat \<Rightarrow> db_error + (post_like \<times> bool) \<times> database" where
  "get_or_create db u p =
     (case find (\<lambda>l. like_user l = u \<and> like_post l = p) (post_like_table db) of
        Some row \<Rightarrow> Inr ((row, False), db)
      | None \<Rightarrow>
          (case create_post_like db u p of
             Inl e \<Rightarrow> Inl e
           | Inr (row, db') \<Rightarrow> Inr ((row, True), db')))"

text \<open>
  The view returns the response and leaves the database in its new state. An
  \<^verbatim>\<open>IntegrityError\<close> leaves the block of \<^verbatim>\<open>transaction.atomic()\<close>, which rolls back.
\<close>

definition like :: "request \<Rightarrow> nat \<Rightarrow> database \<Rightarrow> response \<times> database" where
  "like request pk db =
     (case get_object db pk of
        None \<Rightarrow> (Http404, db)
      | Some post \<Rightarrow>
          (case get_or_create db (request_user request) (post_id post) of
             Inr ((_, created), db') \<Rightarrow>
               if \<not> created then (Response 400 ''Already liked this post'', db')
               else (Response 200 ''Post liked successfully'', db')
           | Inl IntegrityError \<Rightarrow> (Response 400 ''Already liked this post'', db)))"

section \<open>Frontend like handlers\<close>

text \<open>
  What a handler sees of a call to the API: the awaited promise resolves, or it rejects
  with an error whose \<^verbatim>\<open>message\<close> the \<^verbatim>\<open>catch\<close> block reads.
\<close>

datatype api_result = Resolved | Rejected (message: string)

datatype api_call = LikePost nat | UnlikePost nat | LikeComment nat | UnlikeComment nat

text \<open>
  The part of a component's state that the handlers touch: the \<^verbatim>\<open>error\<close> state (shown
  to the user when set), the \<^verbatim>\<open>loading\<close> flag, and how many reloads were started.
\<close>

record ui_state =
  ui_error :: "string option"
  ui_loading :: bool
  ui_reloads :: nat

text \<open>\<^verbatim>\<open>message.includes(search)\<close>: the search string occurs as a contiguous part.\<close>

definition str_includes :: "string \<Rightarrow> string \<Rightarrow> bool" where
  "str_includes s search \<longleftrightarrow> sublist search s"

text \<open>
  \<^verbatim>\<open>loadData()\<close> and \<^verbatim>\<open>loadPost()\<close> are called without \<^verbatim>\<open>await\<close>: the handler only starts
  them. They set \<^verbatim>\<open>loading\<close> and fetch; what the fetch brings back is a later event.
\<close>

definition loadData :: "ui_state \<Rightarrow> ui_state" where
  "loadData s = s\<lparr>ui_loading := True, ui_reloads := Suc (ui_reloads s)\<rparr>"

definition loadPost :: "ui_state \<Rightarrow> ui_state" where
  "loadPost s = s\<lparr>ui_loading := True, ui_reloads := Suc (ui_reloads s)\<rparr>"

text \<open>
  \<^verbatim>\<open>
  async function handleLikePost(postId, hasLiked) {
    try {
      if (hasLiked) { await unlikePost(postId); } else { await likePost(postId); }
      loadData();
    } catch (err) {
      // Ignore "already liked" errors
      if (!err.message.includes('Already')) { setError(err.message); }
    }
  }
  \<close>
  The first argument is the server as the handler sees it: the outcome of each call.
\<close>

definition App_handleLikePost ::
    "(api_call \<Rightarrow> api_result) \<Rightarrow> nat \<Rightarrow> bool \<Rightarrow> ui_state \<Rightarrow> ui_state" where
  "App_handleLikePost api postId hasLiked s =
     (case (if hasLiked then api (UnlikePost postId) else api (LikePost postId)) of
        Resolved \<Rightarrow> loadData s
      | Rejected err_message \<Rightarrow>
          if \<not> str_includes err_message ''Already'' then s\<lparr>ui_error := Some err_message\<rparr>
          else s)"

text \<open>
  The handler of the post page reads \<^verbatim>\<open>post.user_has_liked\<close> from the component state
  and \<^verbatim>\<open>postId\<close> from its props; both are arguments here. The button that calls it is
  rendered only once \<^verbatim>\<open>post\<close> is loaded.
\<close>

definition PostDetail_handleLikePost ::
    "(api_call \<Rightarrow> api_result) \<Rightarrow> nat \<Rightarrow> bool \<Rightarrow> ui_state \<Rightarrow> ui_state" where
  "PostDetail_handleLikePost api postId user_has_liked s =
     (case (if user_has_liked then api (UnlikePost postId) else api (LikePost postId)) of
        Resolved \<Rightarrow> loadPost s
      | Rejected err_message \<Rightarrow>
          if \<not> str_includes err_message ''Already'' then s\<lparr>ui_error := Some err_message\<rparr>
          else s)"

definition PostDetail_handleLikeComment ::
    "(api_call \<Rightarrow> api_result) \<Rightarrow> nat \<Rightarrow> bool \<Rightarrow> ui_state \<Rightarrow> ui_state" where
  "PostDetail_handleLikeComment api commentId hasLiked s =
     (case (if hasLiked then api (UnlikeComment commentId) else api (LikeComment commentId)) of
        Resolved \<Rightarrow> loadPost s
      | Rejected err_message \<Rightarrow>
          if \<not> str_includes err_message ''Already'' then s\<lparr>ui_error := Some err_message\<rparr>
          else s)"

text \<open>
  Three servers to run the handlers against: one that rejects every call with the detail
  of the backend's duplicate-like response, one that rejects with another message, and
  one that accepts every call.
\<close>

definition already_liked_server :: "api_call \<Rightarrow> api_result" where
  "already_liked_server call = Rejected ''Already liked this post''"

definition failing_server :: "api_call \<Rightarrow> api_result" where
  "failing_server call = Rejected ''Request failed''"

definition accepting_server :: "api_call \<Rightarrow> api_result" where
  "accepting_server call = Resolved"

definition initial_ui :: ui_state where
  "initial_ui = \<lparr>ui_error = None, ui_loading = False, ui_reloads = 0\<rparr>"

section \<open>Properties of the comment tree\<close>

subsection \<open>The grouping pass\<close>

lemma tree_insert_apply:
  "tree_insert tree c k = (if k = parent_id c then Some (bucket tree k @ [c]) else tree k)"
  by (simp add: tree_insert_def bucket_def Let_def split: option.splits)

lemma bucket_tree_insert:
  "bucket (tree_insert tree c) k = bucket tree k @ (if parent_id c = k then [c] else [])"
  by (auto simp add: tree_insert_apply bucket_def)

lemma bucket_build_comment_tree_loop:
  "bucket (build_comment_tree_loop tree cs) k = bucket tree k @ filter (\<lambda>c. parent_id c = k) cs"
  by (induction cs arbitrary: tree) (simp_all add: bucket_tree_insert)

lemma bucket_build_comment_tree:
  "bucket (build_comment_tree cs) k = filter (\<lambda>c. parent_id c = k) cs"
proof -
  have "bucket Map.empty k = ([] :: comment list)" by (simp add: bucket_def)
  then show ?thesis
    by (simp add: build_comment_tree_def bucket_build_comment_tree_loop)
qed

text \<open>
  The grouping files every comment under its \<^verbatim>\<open>parent_id\<close> as it stands, with no check of
  the id: the entry of a key is the input restricted to the comments with that parent.
\<close>

lemma build_comment_tree_entry:
  "build_comment_tree cs k =
     (if \<exists>c\<in>set cs. parent_id c = k then Some (filter (\<lambda>c. parent_id c = k) cs) else None)"
proof -
  have "build_comment_tree_loop tree cs k =
      (if \<exists>c\<in>set cs. parent_id c = k
       then Some (bucket tree k @ filter (\<lambda>c. parent_id c = k) cs) else tree k)" for tree
    by (induction cs arbitrary: tree) (auto simp add: tree_insert_apply bucket_def)
  then show ?thesis
    by (simp add: build_comment_tree_def bucket_def)
qed

lemma those_eq_Some: "those xs = Some ys \<longleftrightarrow> xs = map Some ys"
  by (induction xs arbitrary: ys) (auto split: option.splits)

lemma those_map_Some:
  "those (map f xs) = Some ys \<longleftrightarrow> map f xs = map Some ys"
  by (simp add: those_eq_Some)

lemma those_map_total:
  "(\<And>x. x \<in> set xs \<Longrightarrow> f x \<noteq> None) \<Longrightarrow> those (map f xs) \<noteq> None"
  by (induction xs) (auto split: option.splits)

lemma depth_in_member: "depth_in cs c k \<Longrightarrow> c \<in> set cs"
  by (induction rule: depth_in.induct) auto

lemma depth_in_functional:
  assumes "distinct (map comment_id cs)"
  shows "depth_in cs c k \<Longrightarrow> depth_in cs c k' \<Longrightarrow> k = k'"
proof (induction arbitrary: k' rule: depth_in.induct)
  case (depth_root c)
  from depth_root.prems depth_root.hyps show ?case
    by (cases rule: depth_in.cases) auto
next
  case (depth_child c d k)
  from depth_child.prems show ?case
  proof (cases rule: depth_in.cases)
    case depth_root
    with depth_child.hyps show ?thesis by simp
  next
    case (depth_child d' j)
    then have "comment_id d' = comment_id d"
      using depth_child.hyps by simp
    moreover have "d \<in> set cs" "d' \<in> set cs"
      using depth_child.hyps(3) depth_child(4) by (auto dest: depth_in_member)
    ultimately have "d' = d"
      using assms by (meson distinct_map inj_onD)
    with depth_child(4) depth_child.IH have "k = j" by simp
    with depth_child(1) show ?thesis by simp
  qed
qed

lemma depth_in_ancestors:
  "depth_in cs c k \<Longrightarrow> j \<le> k \<Longrightarrow> \<exists>d. depth_in cs d j"
proof (induction arbitrary: j rule: depth_in.induct)
  case (depth_root c)
  then show ?case by (auto intro: depth_in.depth_root)
next
  case (depth_child c d k)
  show ?case
  proof (cases "j = Suc k")
    case True
    then show ?thesis
      using depth_child.hyps by (auto intro: depth_in.depth_child)
  next
    case False
    with depth_child.prems have "j \<le> k" by simp
    then show ?thesis by (rule depth_child.IH)
  qed
qed

lemma depth_in_bound:
  assumes ids: "distinct (map comment_id cs)" and dep: "depth_in cs c k"
  shows "k < length cs"
proof -
  have "\<forall>j\<in>{..k}. \<exists>d. depth_in cs d j"
    using depth_in_ancestors [OF dep] by simp
  then obtain f where f: "\<And>j. j \<le> k \<Longrightarrow> depth_in cs (f j) j"
    by (metis atMost_iff)
  have "inj_on f {..k}"
  proof (rule inj_onI)
    fix i j assume "i \<in> {..k}" "j \<in> {..k}" "f i = f j"
    then have "depth_in cs (f i) i" "depth_in cs (f i) j"
      using f [of i] f [of j] by simp_all
    then show "i = j" by (rule depth_in_functional [OF ids])
  qed
  moreover have "f ` {..k} \<subseteq> set cs"
    using f by (auto dest: depth_in_member)
  ultimately have "card {..k} \<le> card (set cs)"
    by (metis card_image card_mono List.finite_set)
  also have "\<dots> \<le> length cs" by (rule card_length)
  finally show ?thesis by simp
qed

lemma materialize_total:
  assumes ids: "distinct (map comment_id cs)"
  shows "depth_in cs c k \<Longrightarrow> length cs \<le> n + k
     \<Longrightarrow> materialize n (build_comment_tree cs) c \<noteq> None"
proof (induction n arbitrary: c k)
  case 0
  with depth_in_bound [OF ids] show ?case by fastforce
next
  case (Suc n)
  have "materialize n (build_comment_tree cs) d \<noteq> None"
    if "d \<in> set (bucket (build_comment_tree cs) (Some (comment_id c)))" for d
  proof -
    from that have "d \<in> set cs" "parent_id d = Some (comment_id c)"
      by (simp_all add: bucket_build_comment_tree)
    with Suc.prems(1) have "depth_in cs d (Suc k)"
      by (auto intro: depth_child)
    moreover have "length cs \<le> n + Suc k" using Suc.prems(2) by simp
    ultimately show ?thesis by (rule Suc.IH)
  qed
  then have "those (map (materialize n (build_comment_tree cs))
      (bucket (build_comment_tree cs) (Some (comment_id c)))) \<noteq> None"
    by (rule those_map_total)
  then show ?case by auto
qed

lemma buildTree_total:
  assumes ids: "distinct (map comment_id cs)"
  shows "buildTree cs \<noteq> None"
proof -
  have "materialize (length cs) (build_comment_tree cs) c \<noteq> None"
    if "c \<in> set (bucket (build_comment_tree cs) None)" for c
  proof -
    from that have "depth_in cs c 0"
      by (auto simp add: bucket_build_comment_tree intro: depth_root)
    then show ?thesis
      by (rule materialize_total [OF ids]) simp
  qed
  then have "those (map (materialize (length cs) (build_comment_tree cs))
      (bucket (build_comment_tree cs) None)) \<noteq> None"
    by (rule those_map_total)
  then show ?thesis by (simp add: buildTree_def Let_def)
qed

subsection \<open>The materialised forest\<close>

lemma those_map_list_all2:
  "those (map f xs) = Some ys \<longleftrightarrow> list_all2 (\<lambda>x y. f x = Some y) xs ys"
proof (induction xs arbitrary: ys)
  case Nil
  then show ?case by auto
next
  case (Cons x xs)
  then show ?case
    by (cases ys) (auto split: option.splits)
qed

lemma list_all2_source:
  "list_all2 P xs ys \<Longrightarrow> y \<in> set ys \<Longrightarrow> \<exists>x\<in>set xs. P x y"
  by (induction rule: list_all2_induct) auto

lemma materialize_Suc_Some:
  assumes "materialize (Suc m) tree c = Some node"
  obtains ns where "node = CommentNode c ns"
    and "list_all2 (\<lambda>d k. materialize m tree d = Some k) (bucket tree (Some (comment_id c))) ns"
proof -
  from assms obtain ns where "node = CommentNode c ns"
    and "those (map (materialize m tree) (bucket tree (Some (comment_id c)))) = Some ns"
    by auto
  then show thesis
    using that by (simp add: those_map_list_all2)
qed

lemma materialize_record:
  "materialize n tree c = Some node \<Longrightarrow> node_record node = c"
  by (cases n) auto

lemma list_all2_materialize_records:
  "list_all2 (\<lambda>d k. materialize m tree d = Some k) ds ns \<Longrightarrow> map node_record ns = ds"
  by (induction rule: list_all2_induct) (auto dest: materialize_record)

lemma materialize_children_match:
  assumes srt: "sorted (map comment_created_at cs)"
  shows "materialize n (build_comment_tree cs) c = Some node \<Longrightarrow> children_match cs node"
proof (induction n arbitrary: c node)
  case 0
  then show ?case by simp
next
  case (Suc n)
  let ?ds = "filter (\<lambda>d. parent_id d = Some (comment_id c)) cs"
  from Suc.prems obtain ns where node: "node = CommentNode c ns"
    and all2: "list_all2 (\<lambda>d k. materialize n (build_comment_tree cs) d = Some k) ?ds ns"
    by (rule materialize_Suc_Some) (simp add: bucket_build_comment_tree)
  have recs: "map node_record ns = ?ds"
    using all2 by (rule list_all2_materialize_records)
  have "sorted (map comment_created_at ?ds)"
    using srt by (rule sorted_filter)
  with recs have "sorted (map comment_created_at (map node_record ns))" by simp
  then have sorted_ns: "sorted (map (\<lambda>n. comment_created_at (node_record n)) ns)"
    by (simp add: comp_def)
  have "children_match cs k" if "k \<in> set ns" for k
  proof -
    from all2 that obtain d where "materialize n (build_comment_tree cs) d = Some k"
      by (blast dest: list_all2_source)
    then show ?thesis by (rule Suc.IH)
  qed
  then have "list_all (children_match cs) ns"
    by (simp add: list_all_iff)
  with recs sorted_ns node show ?case by simp
qed

lemma materialize_depth:
  "materialize n (build_comment_tree cs) c = Some node \<Longrightarrow> depth_in cs c k
     \<Longrightarrow> \<forall>d\<in>set (flatten_node node). \<exists>j. depth_in cs d j"
proof (induction n arbitrary: c node k)
  case 0
  then show ?case by simp
next
  case (Suc n)
  let ?ds = "filter (\<lambda>d. parent_id d = Some (comment_id c)) cs"
  from Suc.prems(1) obtain ns where node: "node = CommentNode c ns"
    and all2: "list_all2 (\<lambda>d k. materialize n (build_comment_tree cs) d = Some k) ?ds ns"
    by (rule materialize_Suc_Some) (simp add: bucket_build_comment_tree)
  have "\<exists>j. depth_in cs e j" if "m \<in> set ns" "e \<in> set (flatten_node m)" for m e
  proof -
    from all2 that(1) obtain d where d: "d \<in> set ?ds"
      and m: "materialize n (build_comment_tree cs) d = Some m"
      by (blast dest: list_all2_source)
    from d Suc.prems(2) have "depth_in cs d (Suc k)"
      by (auto intro: depth_child)
    with m have "\<forall>d\<in>set (flatten_node m). \<exists>j. depth_in cs d j"
      by (rule Suc.IH)
    with that(2) show ?thesis by blast
  qed
  with Suc.prems(2) node show ?case by auto
qed

lemma buildTree_Some:
  "buildTree cs = Some forest \<longleftrightarrow>
     list_all2 (\<lambda>d k. materialize (length cs) (build_comment_tree cs) d = Some k)
       (filter (\<lambda>d. parent_id d = None) cs) forest"
  by (simp add: buildTree_def Let_def those_map_list_all2 bucket_build_comment_tree)

lemma buildTree_roots:
  "buildTree cs = Some forest \<Longrightarrow> map node_record forest = filter (\<lambda>d. parent_id d = None) cs"
  by (auto simp add: buildTree_Some dest: list_all2_materialize_records)

lemma buildTree_depth:
  assumes "buildTree cs = Some forest" and "d \<in> set (flatten_forest forest)"
  shows "\<exists>j. depth_in cs d j"
proof -
  from assms(2) obtain m where m: "m \<in> set forest" and d: "d \<in> set (flatten_node m)"
    by (auto simp add: flatten_forest_def)
  from assms(1) have "list_all2 (\<lambda>d k. materialize (length cs) (build_comment_tree cs) d = Some k)
       (filter (\<lambda>d. parent_id d = None) cs) forest"
    by (simp add: buildTree_Some)
  with m obtain r where r: "r \<in> set (filter (\<lambda>d. parent_id d = None) cs)"
    and mat: "materialize (length cs) (build_comment_tree cs) r = Some m"
    by (blast dest: list_all2_source)
  from r have "depth_in cs r 0" by (auto intro: depth_root)
  with mat have "\<forall>d\<in>set (flatten_node m). \<exists>j. depth_in cs d j"
    by (rule materialize_depth)
  with d show ?thesis by blast
qed

lemma buildTree_children_match:
  assumes "sorted (map comment_created_at cs)" and "buildTree cs = Some forest"
  shows "list_all (children_match cs) forest"
proof -
  have "children_match cs m" if "m \<in> set forest" for m
  proof -
    from assms(2) have "list_all2 (\<lambda>d k. materialize (length cs) (build_comment_tree cs) d = Some k)
       (filter (\<lambda>d. parent_id d = None) cs) forest"
      by (simp add: buildTree_Some)
    with that obtain r where
      "materialize (length cs) (build_comment_tree cs) r = Some m"
      by (blast dest: list_all2_source)
    then show ?thesis by (rule materialize_children_match [OF assms(1)])
  qed
  then show ?thesis by (simp add: list_all_iff)
qed

lemma depth_in_parent:
  "depth_in cs c k \<Longrightarrow> parent_id c = None \<or> (\<exists>d\<in>set cs. parent_id c = Some (comment_id d))"
  by (induction rule: depth_in.induct) (auto dest: depth_in_member)

section \<open>Properties of the leaderboard\<close>

subsection \<open>Dict, grouping and sorting\<close>

lemma dict_get_dict_set:
  "dict_get (dict_set d k v) k' dflt = (if k' = k then v else dict_get d k' dflt)"
  by (induction d) auto


lemma dict_get_accumulate:
  "dict_get (accumulate d es) u 0 = dict_get d u 0 + sum_list (map snd (filter (\<lambda>e. fst e = u) es))"
  by (induction d es rule: accumulate.induct) (auto simp add: dict_get_dict_set)


lemma filter_key_map_distinct:
  "distinct ks \<Longrightarrow>
     filter (\<lambda>e. fst e = u) (map (\<lambda>k. (k, f k)) ks) = (if u \<in> set ks then [(u, f u)] else [])"
  by (induction ks) auto

lemma values_annotate_count_lookup:
  "sum_list (map snd (filter (\<lambda>e. fst e = u) (values_annotate_count keys w)))
     = int (count_list keys u) * w"
proof -
  have "distinct (sort (remdups keys))" by simp
  then have "filter (\<lambda>e. fst e = u) (values_annotate_count keys w)
      = (if u \<in> set (sort (remdups keys)) then [(u, int (count_list keys u) * w)] else [])"
    unfolding values_annotate_count_def by (rule filter_key_map_distinct)
  then show ?thesis by (auto simp add: count_list_0_iff)
qed



lemma count_list_map_filter:
  "count_list (List.map_filter f xs) u = length (filter (\<lambda>x. f x = Some u) xs)"
  by (induction xs) (auto simp add: List.map_filter_simps split: option.splits)


lemma karma_of_user:
  "dict_get (user_karma db) u 0 =
     5 * int (length (filter (\<lambda>l. clock db - timedelta_hours 24 \<le> like_created_at l \<and>
                  lookup_post_author (post_table db) (like_post l) = Some u) (post_like_table db)))
     + int (length (filter (\<lambda>l. clock db - timedelta_hours 24 \<le> clike_created_at l \<and>
                  lookup_comment_author (comment_table db) (clike_comment l) = Some u)
               (comment_like_table db)))"
  by (simp add: user_karma_def Let_def dict_get_accumulate post_karma_def comment_karma_def
      values_annotate_count_lookup count_list_map_filter conj_commute)




lemma extended_by_filter:
  "extended_by old xs ys \<Longrightarrow> filter (\<lambda>x. \<not> old x) ys = filter (\<lambda>x. \<not> old x) xs"
  by (induction rule: extended_by.induct) auto

subsection \<open>Insertion order of the dict\<close>

lemma keys_dict_set:
  "map fst (dict_set d k v) = (if k \<in> set (map fst d) then map fst d else map fst d @ [k])"
  by (induction d) (auto split: if_splits)

lemma keys_accumulate:
  "distinct (map fst es) \<Longrightarrow>
     map fst (accumulate d es) = map fst d @ filter (\<lambda>k. k \<notin> set (map fst d)) (map fst es)"
proof (induction d es rule: accumulate.induct)
  case (1 d)
  then show ?case by simp
next
  case (2 d u k es)
  let ?d = "dict_set d u (dict_get d u 0 + k)"
  from "2.prems" have u: "u \<notin> set (map fst es)" and dist: "distinct (map fst es)"
    by auto
  have keys: "set (map fst ?d) = insert u (set (map fst d))"
    by (auto simp add: keys_dict_set)
  have "filter (\<lambda>k. k \<notin> insert u (set (map fst d))) (map fst es)
      = filter (\<lambda>k. k \<notin> set (map fst d)) (map fst es)"
    using u by (intro filter_cong) auto
  with "2.IH" [OF dist] keys show ?case
    by (simp add: keys_dict_set)
qed

lemma keys_values_annotate_count:
  "map fst (values_annotate_count keys w) = sort (remdups keys)"
  by (simp add: values_annotate_count_def comp_def)

lemma keys_user_karma:
  "map fst (user_karma db) =
     map fst (post_karma db (clock db - timedelta_hours 24)) @
     filter (\<lambda>u. u \<notin> set (map fst (post_karma db (clock db - timedelta_hours 24))))
       (map fst (comment_karma db (clock db - timedelta_hours 24)))"
proof -
  let ?pk = "post_karma db (clock db - timedelta_hours 24)"
  let ?ck = "comment_karma db (clock db - timedelta_hours 24)"
  have d: "distinct (map fst ?pk)" "distinct (map fst ?ck)"
    by (simp_all add: post_karma_def comment_karma_def keys_values_annotate_count)
  from d(1) have first: "map fst (accumulate [] ?pk) = map fst ?pk"
    by (simp add: keys_accumulate)
  from d(2) have "map fst (accumulate (accumulate [] ?pk) ?ck)
      = map fst (accumulate [] ?pk) @
        filter (\<lambda>k. k \<notin> set (map fst (accumulate [] ?pk))) (map fst ?ck)"
    by (rule keys_accumulate)
  with first show ?thesis
    by (simp add: user_karma_def Let_def)
qed

subsection \<open>Claims about the comment tree\<close>

lemmas tree_eval = buildTree_def build_comment_tree_def tree_insert_def bucket_def Let_def
  flatten_forest_def

text \<open>
  Claim C2. A comment whose \<^verbatim>\<open>parent_id\<close> names no comment of the input is left out of
  the forest, and the pass still returns: with unique comment ids, \<open>buildTree\<close> yields a
  forest and the dangling comment occurs nowhere in it. For the single comment of
  scenario B (id 5, parent 99) the forest is empty; that instance is the witness.
\<close>

theorem buildTree_excludes_dangling:
  assumes "distinct (map comment_id cs)"
    and "c \<in> set cs" and "parent_id c = Some p" and "p \<notin> comment_id ` set cs"
  shows "\<exists>forest. buildTree cs = Some forest \<and> c \<notin> set (flatten_forest forest)"
proof -
  from assms(1) obtain forest where forest: "buildTree cs = Some forest"
    using buildTree_total by blast
  have "c \<notin> set (flatten_forest forest)"
  proof
    assume "c \<in> set (flatten_forest forest)"
    with forest obtain j where "depth_in cs c j"
      by (blast dest: buildTree_depth)
    then have "parent_id c = None \<or> (\<exists>d\<in>set cs. parent_id c = Some (comment_id d))"
      by (rule depth_in_parent)
    with assms(3,4) show False by auto
  qed
  with forest show ?thesis by blast
qed

theorem buildTree_excludes_dangling_witness:
  "distinct (map comment_id [scenario_B_comment])
   \<and> scenario_B_comment \<in> set [scenario_B_comment]
   \<and> parent_id scenario_B_comment = Some 99
   \<and> 99 \<notin> comment_id ` set [scenario_B_comment]
   \<and> buildTree [scenario_B_comment] = Some []
   \<and> (\<exists>forest. buildTree [scenario_B_comment] = Some forest
         \<and> scenario_B_comment \<notin> set (flatten_forest forest))"
proof -
  have h: "distinct (map comment_id [scenario_B_comment])"
    "scenario_B_comment \<in> set [scenario_B_comment]"
    "parent_id scenario_B_comment = Some 99"
    "99 \<notin> comment_id ` set [scenario_B_comment]"
    by (simp_all add: scenario_B_comment_def)
  have "buildTree [scenario_B_comment] = Some []"
    by (simp add: tree_eval scenario_B_comment_def)
  with h buildTree_excludes_dangling [OF h] show ?thesis by simp
qed

text \<open>
  Claim C3. For an input sorted by \<^verbatim>\<open>created_at\<close> (with unique ids), \<open>buildTree\<close> returns a
  forest in which every node satisfies \<open>children_match\<close>: the records of its children are
  exactly the input filtered to the comments whose \<^verbatim>\<open>parent_id\<close> is the node's id, in input
  order, and they are ascending in \<^verbatim>\<open>created_at\<close>. Scenario A is the witness.
\<close>

theorem buildTree_children_in_input_order:
  assumes "sorted (map comment_created_at cs)" and "distinct (map comment_id cs)"
  shows "\<exists>forest. buildTree cs = Some forest \<and> list_all (children_match cs) forest"
proof -
  from assms(2) obtain forest where forest: "buildTree cs = Some forest"
    using buildTree_total by blast
  with assms(1) have "list_all (children_match cs) forest"
    by (rule buildTree_children_match)
  with forest show ?thesis by blast
qed

lemma scenario_A_forest:
  "buildTree scenario_A =
     Some [CommentNode (scenario_A_comment 1 None 1)
            [CommentNode (scenario_A_comment 2 (Some 1) 2)
               [CommentNode (scenario_A_comment 4 (Some 2) 4) []],
             CommentNode (scenario_A_comment 3 (Some 1) 3) []]]"
  by (simp add: tree_eval scenario_A_def scenario_A_comment_def)

theorem buildTree_children_in_input_order_witness:
  "sorted (map comment_created_at scenario_A) \<and> distinct (map comment_id scenario_A)
   \<and> (\<exists>forest. buildTree scenario_A = Some forest \<and> list_all (children_match scenario_A) forest)
   \<and> buildTree scenario_A =
     Some [CommentNode (scenario_A_comment 1 None 1)
            [CommentNode (scenario_A_comment 2 (Some 1) 2)
               [CommentNode (scenario_A_comment 4 (Some 2) 4) []],
             CommentNode (scenario_A_comment 3 (Some 1) 3) []]]"
proof -
  have h: "sorted (map comment_created_at scenario_A)" "distinct (map comment_id scenario_A)"
    by (simp_all add: scenario_A_def scenario_A_comment_def)
  from buildTree_children_in_input_order [OF h] h scenario_A_forest show ?thesis by blast
qed

subsection \<open>Claims about the leaderboard\<close>

lemmas karma_eval = leaderboard_def user_karma_def post_karma_def comment_karma_def
  values_annotate_count_def lookup_post_author_def lookup_comment_author_def
  timedelta_hours_def List.map_filter_simps Let_def

lemma filter_take_prefix: "prefix (filter P (take n xs)) (filter P xs)"
proof -
  have "filter P xs = filter P (take n xs) @ filter P (drop n xs)"
    by (metis append_take_drop_id filter_append)
  then show ?thesis by (simp add: prefix_def)
qed

lemma sort_by_karma_stable:
  "filter (\<lambda>e. snd e = k) (sort_key (\<lambda>x. - snd x) xs) = filter (\<lambda>e. snd e = (k::int)) xs"
proof -
  have "(\<lambda>e::'a \<times> int. snd e = k) = (\<lambda>e. - snd e = - k)" by auto
  then show ?thesis by (simp only: sort_key_stable)
qed

lemma sort_by_karma_descending:
  "sorted_wrt (\<lambda>a b. snd b \<le> (snd a :: int)) (sort_key (\<lambda>x. - snd x) xs)"
proof -
  have "sorted (map (\<lambda>x. - snd x) (sort_key (\<lambda>x. - snd x) xs))"
    by (rule sorted_sort_key)
  then show ?thesis
    by (simp add: sorted_map) 
qed

text \<open>
  Claim C1, as stated, fails. In scenario D users 1 and 2 both land on 5 karma inside the
  window, user 2 through a post like and user 1 through five comment likes; the output
  lists user 2 before user 1. The sort key is the karma alone, and user 2 entered
  \<^verbatim>\<open>user_karma\<close> first, with the entries of the post-like query.
\<close>

theorem ties_not_by_user_id_counterexample:
  "leaderboard \<lparr>request_user = 1\<rparr> scenario_D = [(2, 5), (1, 5)]"
  by (simp add: karma_eval scenario_D_def)

text \<open>
  Claim C1, amended. The output is in descending karma, and users with equal karma keep
  the order in which they were inserted into \<^verbatim>\<open>user_karma\<close> (the sort is stable and its
  only key is the karma): for every karma value \<open>k\<close> the output rows with karma \<open>k\<close> are an
  initial segment of the \<^verbatim>\<open>user_karma\<close> items with karma \<open>k\<close>. The keys of \<^verbatim>\<open>user_karma\<close>
  are the authors of the post-like query in its row order, followed by the authors that
  only the comment-like query returns, in its row order. No ascending user id is imposed.
\<close>

theorem leaderboard_ties_keep_insertion_order:
  "sorted_wrt (\<lambda>a b. snd b \<le> snd a) (leaderboard r db) \<and>
   prefix (filter (\<lambda>e. snd e = k) (leaderboard r db)) (filter (\<lambda>e. snd e = k) (user_karma db)) \<and>
   map fst (user_karma db) =
     map fst (post_karma db (clock db - timedelta_hours 24)) @
     filter (\<lambda>u. u \<notin> set (map fst (post_karma db (clock db - timedelta_hours 24))))
       (map fst (comment_karma db (clock db - timedelta_hours 24)))"
proof (intro conjI)
  show "sorted_wrt (\<lambda>a b. snd b \<le> snd a) (leaderboard r db)"
    unfolding leaderboard_def by (intro sorted_wrt_take sort_by_karma_descending)
next
  have "prefix (filter (\<lambda>e. snd e = k) (leaderboard r db))
      (filter (\<lambda>e. snd e = k) (sort_key (\<lambda>x. - snd x) (user_karma db)))"
    unfolding leaderboard_def by (rule filter_take_prefix)
  then show "prefix (filter (\<lambda>e. snd e = k) (leaderboard r db))
      (filter (\<lambda>e. snd e = k) (user_karma db))"
    by (simp only: sort_by_karma_stable)
next
  show "map fst (user_karma db) =
     map fst (post_karma db (clock db - timedelta_hours 24)) @
     filter (\<lambda>u. u \<notin> set (map fst (post_karma db (clock db - timedelta_hours 24))))
       (map fst (comment_karma db (clock db - timedelta_hours 24)))"
    by (rule keys_user_karma)
qed

text \<open>
  Claim C4. The aggregation retains exactly the likes with
  \<^verbatim>\<open>created_at >= now - 24 h\<close>: the karma of every user is 5 for each post like on the
  user's posts and 1 for each comment like on the user's comments whose time is at or
  after the boundary; a like exactly at the boundary counts, an earlier one adds nothing.
  The instance evaluates a database with one like at the boundary and one a microsecond
  before it.
\<close>

theorem window_boundary_inclusive:
  "dict_get (user_karma db) u 0 =
     5 * int (length (filter (\<lambda>l. like_created_at l \<ge> clock db - timedelta_hours 24 \<and>
                  lookup_post_author (post_table db) (like_post l) = Some u) (post_like_table db)))
     + int (length (filter (\<lambda>l. clike_created_at l \<ge> clock db - timedelta_hours 24 \<and>
                  lookup_comment_author (comment_table db) (clike_comment l) = Some u)
               (comment_like_table db)))"
  by (rule karma_of_user)

theorem window_boundary_inclusive_witness:
  "like_created_at (post_like_table boundary_db ! 0) = clock boundary_db - timedelta_hours 24
   \<and> like_created_at (post_like_table boundary_db ! 1) < clock boundary_db - timedelta_hours 24
   \<and> dict_get (user_karma boundary_db) 1 0 = 5
   \<and> leaderboard \<lparr>request_user = 1\<rparr> boundary_db = [(1, 5)]"
proof -
  have "dict_get (user_karma boundary_db) 1 0 = 5"
    using window_boundary_inclusive [of boundary_db 1]
    by (simp add: boundary_db_def timedelta_hours_def lookup_post_author_def)
  moreover have "leaderboard \<lparr>request_user = 1\<rparr> boundary_db = [(1, 5)]"
    by (simp add: karma_eval boundary_db_def)
  ultimately show ?thesis
    by (simp add: boundary_db_def timedelta_hours_def)
qed





lemma leaderboard_cong:
  assumes "clock db' = clock db" "post_table db' = post_table db"
    "comment_table db' = comment_table db"
    and "filter (\<lambda>l. clock db - timedelta_hours 24 \<le> like_created_at l) (post_like_table db')
       = filter (\<lambda>l. clock db - timedelta_hours 24 \<le> like_created_at l) (post_like_table db)"
    and "filter (\<lambda>l. clock db - timedelta_hours 24 \<le> clike_created_at l) (comment_like_table db')
       = filter (\<lambda>l. clock db - timedelta_hours 24 \<le> clike_created_at l) (comment_like_table db)"
  shows "leaderboard r db' = leaderboard r db"
  using assms
  by (simp add: leaderboard_def user_karma_def Let_def post_karma_def comment_karma_def)

text \<open>
  Claim C6. Two databases that agree on the clock and on posts and comments, the second
  holding all like rows of the first plus, anywhere in between, rows older than
  \<^verbatim>\<open>now - 24 h\<close>, give the same leaderboard. Scenario C and its pre-filtered version are the
  witness. \<open>leaderboard_prefiltered\<close> is the special case of a persistence layer that
  filters first.
\<close>



theorem leaderboard_ignores_old_events:
  assumes "clock db' = clock db" "post_table db' = post_table db"
    "comment_table db' = comment_table db"
    and "extended_by (\<lambda>l. like_created_at l < clock db - timedelta_hours 24)
           (post_like_table db) (post_like_table db')"
    and "extended_by (\<lambda>l. clike_created_at l < clock db - timedelta_hours 24)
           (comment_like_table db) (comment_like_table db')"
  shows "leaderboard r db' = leaderboard r db"
proof (rule leaderboard_cong [OF assms(1-3)])
  from assms(4) show "filter (\<lambda>l. clock db - timedelta_hours 24 \<le> like_created_at l) (post_like_table db')
       = filter (\<lambda>l. clock db - timedelta_hours 24 \<le> like_created_at l) (post_like_table db)"
    by (drule_tac extended_by_filter) (simp add: not_less)
  from assms(5) show "filter (\<lambda>l. clock db - timedelta_hours 24 \<le> clike_created_at l) (comment_like_table db')
       = filter (\<lambda>l. clock db - timedelta_hours 24 \<le> clike_created_at l) (comment_like_table db)"
    by (drule_tac extended_by_filter) (simp add: not_less)
qed

lemma leaderboard_prefiltered:
  "leaderboard r (db\<lparr>post_like_table := qualifying_post_likes db,
                     comment_like_table := qualifying_comment_likes db\<rparr>) = leaderboard r db"
  by (rule leaderboard_cong)
    (simp_all add: qualifying_post_likes_def qualifying_comment_likes_def)

theorem leaderboard_ignores_old_events_witness:
  "clock scenario_C = clock scenario_C_prefiltered
   \<and> post_table scenario_C = post_table scenario_C_prefiltered
   \<and> comment_table scenario_C = comment_table scenario_C_prefiltered
   \<and> extended_by (\<lambda>l. like_created_at l < clock scenario_C_prefiltered - timedelta_hours 24)
       (post_like_table scenario_C_prefiltered) (post_like_table scenario_C)
   \<and> extended_by (\<lambda>l. clike_created_at l < clock scenario_C_prefiltered - timedelta_hours 24)
       (comment_like_table scenario_C_prefiltered) (comment_like_table scenario_C)
   \<and> post_like_table scenario_C \<noteq> post_like_table scenario_C_prefiltered
   \<and> leaderboard \<lparr>request_user = 1\<rparr> scenario_C
       = leaderboard \<lparr>request_user = 1\<rparr> scenario_C_prefiltered
   \<and> leaderboard \<lparr>request_user = 1\<rparr> scenario_C = [(1, 5), (2, 1)]"
proof -
  have h: "clock scenario_C = clock scenario_C_prefiltered"
    "post_table scenario_C = post_table scenario_C_prefiltered"
    "comment_table scenario_C = comment_table scenario_C_prefiltered"
    by (simp_all add: scenario_C_prefiltered_def)
  have p: "extended_by (\<lambda>l. like_created_at l < clock scenario_C_prefiltered - timedelta_hours 24)
       (post_like_table scenario_C_prefiltered) (post_like_table scenario_C)"
    unfolding scenario_C_prefiltered_def scenario_C_def
    by (auto simp add: timedelta_hours_def intro!: extended_by.intros)
  have c: "extended_by (\<lambda>l. clike_created_at l < clock scenario_C_prefiltered - timedelta_hours 24)
       (comment_like_table scenario_C_prefiltered) (comment_like_table scenario_C)"
    unfolding scenario_C_prefiltered_def scenario_C_def
    by (auto simp add: timedelta_hours_def intro!: extended_by.intros)
  have d: "post_like_table scenario_C \<noteq> post_like_table scenario_C_prefiltered"
    by (simp add: scenario_C_prefiltered_def scenario_C_def)
  have e: "leaderboard \<lparr>request_user = 1\<rparr> scenario_C = [(1, 5), (2, 1)]"
    by (simp add: karma_eval scenario_C_def)
  from leaderboard_ignores_old_events [OF h p c, of "\<lparr>request_user = 1\<rparr>"] h p c d e
  show ?thesis by simp
qed

lemma map_filter_of_events:
  "List.map_filter a (filter (\<lambda>l. b \<le> t l) xs)
     = List.map_filter fst (filter (\<lambda>e. b \<le> snd e) (map (\<lambda>l. (a l, t l)) xs))"
  by (induction xs) (simp_all add: List.map_filter_simps split: option.splits)

lemma post_karma_of_events:
  "post_karma db b = values_annotate_count
     (List.map_filter fst (filter (\<lambda>e. b \<le> snd e) (post_events db))) 5"
  unfolding post_karma_def post_events_def by (subst map_filter_of_events) (rule refl)

lemma comment_karma_of_events:
  "comment_karma db b = values_annotate_count
     (List.map_filter fst (filter (\<lambda>e. b \<le> snd e) (comment_events db))) 1"
  unfolding comment_karma_def comment_events_def by (subst map_filter_of_events) (rule refl)

text \<open>
  Claim C7, as stated, fails: the view takes only the request and reads the wall clock
  itself (\<^verbatim>\<open>now = timezone.now()\<close>). The same request over the same tables gives two rows
  when the clock reads hour 100 and none when it reads hour 130.
\<close>

theorem leaderboard_reads_clock_counterexample:
  "post_table (scenario_C\<lparr>clock := timedelta_hours 130\<rparr>) = post_table scenario_C
   \<and> comment_table (scenario_C\<lparr>clock := timedelta_hours 130\<rparr>) = comment_table scenario_C
   \<and> post_like_table (scenario_C\<lparr>clock := timedelta_hours 130\<rparr>) = post_like_table scenario_C
   \<and> comment_like_table (scenario_C\<lparr>clock := timedelta_hours 130\<rparr>) = comment_like_table scenario_C
   \<and> leaderboard \<lparr>request_user = 1\<rparr> scenario_C = [(1, 5), (2, 1)]
   \<and> leaderboard \<lparr>request_user = 1\<rparr> (scenario_C\<lparr>clock := timedelta_hours 130\<rparr>) = []"
  by (simp add: karma_eval scenario_C_def)

text \<open>
  Claim C7, amended. The leaderboard is a function of the two event streams (credited
  author and time of each like) and of the clock reading taken inside the view: two runs
  that agree on these three agree on the output, whatever the request, the likers, the
  row ids and the rest of the tables.
\<close>

theorem leaderboard_function_of_events_and_clock:
  assumes "clock db1 = clock db2"
    and "post_events db1 = post_events db2"
    and "comment_events db1 = comment_events db2"
  shows "leaderboard r1 db1 = leaderboard r2 db2"
  using assms
  by (simp add: leaderboard_def user_karma_def Let_def post_karma_of_events
      comment_karma_of_events)

theorem leaderboard_function_of_events_and_clock_witness:
  "clock scenario_C = clock scenario_C_other_rows
   \<and> post_events scenario_C = post_events scenario_C_other_rows
   \<and> comment_events scenario_C = comment_events scenario_C_other_rows
   \<and> scenario_C \<noteq> scenario_C_other_rows
   \<and> leaderboard \<lparr>request_user = 1\<rparr> scenario_C
       = leaderboard \<lparr>request_user = 2\<rparr> scenario_C_other_rows"
proof -
  have h: "clock scenario_C = clock scenario_C_other_rows"
    "post_events scenario_C = post_events scenario_C_other_rows"
    "comment_events scenario_C = comment_events scenario_C_other_rows"
    by (simp_all add: scenario_C_other_rows_def scenario_C_def post_events_def
        comment_events_def lookup_post_author_def lookup_comment_author_def)
  have d: "scenario_C \<noteq> scenario_C_other_rows"
    by (simp add: scenario_C_other_rows_def scenario_C_def)
  from leaderboard_function_of_events_and_clock
    [OF h, of "\<lparr>request_user = 1\<rparr>" "\<lparr>request_user = 2\<rparr>"] h d
  show ?thesis by simp
qed

section \<open>Properties of the like view\<close>

lemma find_None_liked:
  "find (\<lambda>l. like_user l = u \<and> like_post l = p) (post_like_table db) = None \<longleftrightarrow> \<not> liked db u p"
  by (auto simp add: liked_def find_None_iff list_ex_iff)

lemma get_object_post_id: "get_object db pk = Some p \<Longrightarrow> post_id p = pk"
  by (auto simp add: get_object_def dest: find_Some_iff [THEN iffD1])

lemma get_or_create_liked:
  "liked db u p \<Longrightarrow> \<exists>row. get_or_create db u p = Inr ((row, False), db)"
  by (cases "find (\<lambda>l. like_user l = u \<and> like_post l = p) (post_like_table db)")
    (simp_all add: find_None_liked get_or_create_def)

lemma get_or_create_not_liked:
  "\<not> liked db u p \<Longrightarrow> \<exists>row db'. get_or_create db u p = Inr ((row, True), db') \<and>
      post_like_table db' = post_like_table db @ [row] \<and> like_user row = u \<and> like_post row = p"
  using find_None_liked [of u p db]
  by (simp add: get_or_create_def create_post_like_def Let_def)

lemma like_first_time:
  assumes "get_object db pk = Some p" and "\<not> liked db (request_user r) pk"
  shows "fst (like r pk db) = Response 200 ''Post liked successfully''"
    and "liked (snd (like r pk db)) (request_user r) pk"
    and "length (post_like_table (snd (like r pk db))) = Suc (length (post_like_table db))"
proof -
  from assms(1) have pk: "post_id p = pk" by (rule get_object_post_id)
  with assms(2) obtain row db' where goc: "get_or_create db (request_user r) (post_id p) = Inr ((row, True), db')"
    and tbl: "post_like_table db' = post_like_table db @ [row]"
    and row: "like_user row = request_user r" "like_post row = pk"
    using get_or_create_not_liked [of db "request_user r" pk] by auto
  from assms(1) goc have l: "like r pk db = (Response 200 ''Post liked successfully'', db')"
    by (simp add: like_def)
  then show "fst (like r pk db) = Response 200 ''Post liked successfully''" by simp
  from l tbl row show "liked (snd (like r pk db)) (request_user r) pk"
    by (simp add: liked_def)
  from l tbl show "length (post_like_table (snd (like r pk db))) = Suc (length (post_like_table db))"
    by simp
qed

text \<open>
  Claim C9. Liking a post that the user has already liked answers with status 400 and
  the detail \<^verbatim>\<open>Already liked this post\<close>, which is neither the success response nor the
  404 outcome; the database is returned unchanged, so no second row is stored and the
  leaderboard is what it was. A first like of an existing post gets the success response.
\<close>

theorem like_twice_conflict:
  assumes "get_object db pk = Some p" and "liked db (request_user r) pk"
  shows "like r pk db = (Response 400 ''Already liked this post'', db)
     \<and> fst (like r pk db) \<noteq> Response 200 ''Post liked successfully''
     \<and> fst (like r pk db) \<noteq> Http404
     \<and> post_like_table (snd (like r pk db)) = post_like_table db
     \<and> leaderboard r' (snd (like r pk db)) = leaderboard r' db
     \<and> (\<forall>db0 p0. get_object db0 pk = Some p0 \<longrightarrow> \<not> liked db0 (request_user r) pk \<longrightarrow>
           fst (like r pk db0) = Response 200 ''Post liked successfully'')"
proof -
  from assms(1) have pk: "post_id p = pk" by (rule get_object_post_id)
  with assms(2) obtain row where "get_or_create db (request_user r) (post_id p) = Inr ((row, False), db)"
    using get_or_create_liked [of db "request_user r" pk] by auto
  with assms(1) have "like r pk db = (Response 400 ''Already liked this post'', db)"
    by (simp add: like_def)
  then show ?thesis by (simp add: like_first_time(1))
qed

lemmas like_eval = like_def get_object_def get_or_create_def create_post_like_def liked_def Let_def


theorem like_twice_conflict_witness:
  "get_object scenario_C 1 = Some \<lparr>post_id = 1, post_author = 1, post_content = ''post''\<rparr>
   \<and> liked scenario_C (request_user \<lparr>request_user = 3\<rparr>) 1
   \<and> like \<lparr>request_user = 3\<rparr> 1 scenario_C = (Response 400 ''Already liked this post'', scenario_C)
   \<and> fst (like \<lparr>request_user = 5\<rparr> 1 scenario_C) = Response 200 ''Post liked successfully''
   \<and> snd (like \<lparr>request_user = 5\<rparr> 1 (snd (like \<lparr>request_user = 5\<rparr> 1 scenario_C)))
       = snd (like \<lparr>request_user = 5\<rparr> 1 scenario_C)"
proof -
  have h: "get_object scenario_C 1 = Some \<lparr>post_id = 1, post_author = 1, post_content = ''post''\<rparr>"
    "liked scenario_C (request_user \<lparr>request_user = 3\<rparr>) 1"
    by (simp_all add: like_eval scenario_C_def)
  have first: "fst (like \<lparr>request_user = 5\<rparr> 1 scenario_C) = Response 200 ''Post liked successfully''"
    by (simp add: like_eval scenario_C_def)
  have again: "snd (like \<lparr>request_user = 5\<rparr> 1 (snd (like \<lparr>request_user = 5\<rparr> 1 scenario_C)))
       = snd (like \<lparr>request_user = 5\<rparr> 1 scenario_C)"
    by (simp add: like_eval scenario_C_def)
  from like_twice_conflict [OF h, of "\<lparr>request_user = 1\<rparr>"] h first again
  show ?thesis by simp
qed

section \<open>Properties of the frontend handlers\<close>

lemmas handler_defs = App_handleLikePost_def PostDetail_handleLikePost_def
  PostDetail_handleLikeComment_def

lemma loadData_changes_state: "loadData s \<noteq> s"
proof
  assume "loadData s = s"
  then have "ui_reloads (loadData s) = ui_reloads s" by simp
  then show False by (simp add: loadData_def)
qed

lemma loadPost_changes_state: "loadPost s \<noteq> s"
proof
  assume "loadPost s = s"
  then have "ui_reloads (loadPost s) = ui_reloads s" by simp
  then show False by (simp add: loadPost_def)
qed

lemma already_liked_message:
  "str_includes ''Already liked this post'' ''Already''"
  "\<not> str_includes ''Request failed'' ''Already''"
  by (simp_all add: str_includes_def sublist_Cons_right)

text \<open>
  Claim C10, as stated, fails in its last clause. On the feed, a like that the server
  rejects with \<^verbatim>\<open>Already liked this post\<close> leaves the state as it was, while a like that
  succeeds starts \<^verbatim>\<open>loadData()\<close>: \<^verbatim>\<open>loading\<close> is set and the data is fetched again. The two
  outcomes are different states of the page.
\<close>

theorem swallowed_conflict_differs_from_success_counterexample:
  "already_liked_server (LikePost 1) = Rejected ''Already liked this post''
   \<and> str_includes ''Already liked this post'' ''Already''
   \<and> App_handleLikePost already_liked_server 1 False initial_ui = initial_ui
   \<and> accepting_server (LikePost 1) = Resolved
   \<and> App_handleLikePost accepting_server 1 False initial_ui
       = \<lparr>ui_error = None, ui_loading = True, ui_reloads = 1\<rparr>
   \<and> App_handleLikePost already_liked_server 1 False initial_ui
       \<noteq> App_handleLikePost accepting_server 1 False initial_ui"
  by (simp add: handler_defs already_liked_server_def accepting_server_def initial_ui_def
      loadData_def already_liked_message)

text \<open>
  Claim C10, amended. In the three like handlers (\<^verbatim>\<open>handleLikePost\<close> of the feed,
  \<^verbatim>\<open>handleLikePost\<close> and \<^verbatim>\<open>handleLikeComment\<close> of the post page) a rejected call whose
  message contains \<^verbatim>\<open>Already\<close> leaves the state exactly as it was: no error is set, nothing
  is shown, nothing is reloaded. Every other message is stored in the error state. A
  successful call starts the reload (\<^verbatim>\<open>loadData\<close>, \<^verbatim>\<open>loadPost\<close>); the reload leaves the error
  state alone but changes the state. So a swallowed duplicate like shows no error, as a
  success shows none, and differs from a success in that nothing is reloaded.
\<close>

theorem like_handlers_swallow_without_reload:
  "(api (if hasLiked then UnlikePost i else LikePost i) = Rejected m \<longrightarrow>
      App_handleLikePost api i hasLiked s
        = (if str_includes m ''Already'' then s else s\<lparr>ui_error := Some m\<rparr>) \<and>
      PostDetail_handleLikePost api i hasLiked s
        = (if str_includes m ''Already'' then s else s\<lparr>ui_error := Some m\<rparr>))
   \<and> (api (if hasLiked then UnlikeComment i else LikeComment i) = Rejected m \<longrightarrow>
      PostDetail_handleLikeComment api i hasLiked s
        = (if str_includes m ''Already'' then s else s\<lparr>ui_error := Some m\<rparr>))
   \<and> (api (if hasLiked then UnlikePost i else LikePost i) = Resolved \<longrightarrow>
      App_handleLikePost api i hasLiked s = loadData s \<and>
      PostDetail_handleLikePost api i hasLiked s = loadPost s)
   \<and> (api (if hasLiked then UnlikeComment i else LikeComment i) = Resolved \<longrightarrow>
      PostDetail_handleLikeComment api i hasLiked s = loadPost s)
   \<and> ui_error (loadData s) = ui_error s \<and> ui_error (loadPost s) = ui_error s
   \<and> loadData s \<noteq> s \<and> loadPost s \<noteq> s"
proof -
  have "ui_error (loadData s) = ui_error s" "ui_error (loadPost s) = ui_error s"
    by (simp_all add: loadData_def loadPost_def)
  moreover note loadData_changes_state [of s] loadPost_changes_state [of s]
  ultimately show ?thesis
    by (cases hasLiked) (simp_all add: handler_defs)
qed

theorem like_handlers_swallow_without_reload_witness:
  "already_liked_server (LikePost 1) = Rejected ''Already liked this post''
   \<and> already_liked_server (LikeComment 1) = Rejected ''Already liked this post''
   \<and> App_handleLikePost already_liked_server 1 False initial_ui = initial_ui
   \<and> PostDetail_handleLikePost already_liked_server 1 False initial_ui = initial_ui
   \<and> PostDetail_handleLikeComment already_liked_server 1 False initial_ui = initial_ui
   \<and> failing_server (LikePost 1) = Rejected ''Request failed''
   \<and> App_handleLikePost failing_server 1 False initial_ui
     = initial_ui\<lparr>ui_error := Some ''Request failed''\<rparr>
   \<and> accepting_server (LikePost 1) = Resolved
   \<and> accepting_server (LikeComment 1) = Resolved
   \<and> App_handleLikePost accepting_server 1 False initial_ui = loadData initial_ui
   \<and> PostDetail_handleLikeComment accepting_server 1 False initial_ui = loadPost initial_ui
   \<and> loadData initial_ui \<noteq> initial_ui"
proof -
  have c: "already_liked_server (LikePost 1) = Rejected ''Already liked this post''"
    "already_liked_server (LikeComment 1) = Rejected ''Already liked this post''"
    by (simp_all add: already_liked_server_def)
  have n: "failing_server (LikePost 1) = Rejected ''Request failed''"
    by (simp add: failing_server_def)
  have r: "accepting_server (LikePost 1) = Resolved" "accepting_server (LikeComment 1) = Resolved"
    by (simp_all add: accepting_server_def)
  from like_handlers_swallow_without_reload
    [of already_liked_server False 1 "''Already liked this post''" initial_ui]
    c already_liked_message(1)
  have 1: "App_handleLikePost already_liked_server 1 False initial_ui = initial_ui"
    "PostDetail_handleLikePost already_liked_server 1 False initial_ui = initial_ui"
    "PostDetail_handleLikeComment already_liked_server 1 False initial_ui = initial_ui"
    by simp_all
  from like_handlers_swallow_without_reload
    [of failing_server False 1 "''Request failed''" initial_ui] n already_liked_message(2)
  have 2: "App_handleLikePost failing_server 1 False initial_ui
     = initial_ui\<lparr>ui_error := Some ''Request failed''\<rparr>"
    by simp
  from like_handlers_swallow_without_reload [of accepting_server False 1 "''x''" initial_ui] r
  have 3: "App_handleLikePost accepting_server 1 False initial_ui = loadData initial_ui"
    "PostDetail_handleLikeComment accepting_server 1 False initial_ui = loadPost initial_ui"
    "loadData initial_ui \<noteq> initial_ui"
    by simp_all
  from c n r 1 2 3 show ?thesis by simp
qed

end
